theory Spec2Isabelle
  imports Main "HOL-Library.AList" "HOL-Library.Char_ord" "HOL-Library.List_Lexorder"
    "HOL-Library.Sublist"
begin

section \<open>The filesystem seen by \<^verbatim>\<open>scripts/import_models.py\<close>\<close>

text \<open>
  The script works on \<^verbatim>\<open>pathlib.Path\<close> objects and on the filesystem behind them.
  A path is the list of its components (the root is the empty list); the operator
  \<^verbatim>\<open>dir / name\<close> appends one component, so a name taken from a manifest stands for
  a single plain component (no separator, not \<^verbatim>\<open>..\<close>).

  The filesystem is an association list from paths to nodes, read with \<open>map_of\<close>;
  the order of the list is the order in which the operating system enumerates entries.
  A regular file carries its bytes, its modification time, whether the process may read
  it, and whether it is locked (immutable or read-only, so that writing to it or
  removing it is refused). Symbolic links and special files are outside the model.
\<close>

type_synonym path = "string list"

datatype node = Dir | File (content: string) (mtime: nat) (readable: bool) (locked: bool)

type_synonym fs = "(path \<times> node) list"

datatype error =
    FileNotFoundError | IsADirectoryError | NotADirectoryError | FileExistsError
  | PermissionError | SameFileError | JSONDecodeError | TypeError | AttributeError

definition node_at :: "fs \<Rightarrow> path \<Rightarrow> node option" where
  "node_at fs p = (if p = [] then Some Dir else map_of fs p)"

text \<open>\<^verbatim>\<open>Path.exists()\<close> and \<^verbatim>\<open>Path.is_dir()\<close>.\<close>

definition path_exists :: "fs \<Rightarrow> path \<Rightarrow> bool" where
  "path_exists fs p = (node_at fs p \<noteq> None)"

definition is_dir :: "fs \<Rightarrow> path \<Rightarrow> bool" where
  "is_dir fs p = (node_at fs p = Some Dir)"

text \<open>\<^verbatim>\<open>Path.parent\<close> and \<^verbatim>\<open>Path.name\<close>.\<close>

definition parent :: "path \<Rightarrow> path" where
  "parent p = butlast p"

definition basename :: "path \<Rightarrow> string" where
  "basename p = (if p = [] then [] else last p)"

text \<open>The names of the entries of a directory, in enumeration order.\<close>

definition children :: "fs \<Rightarrow> path \<Rightarrow> string list" where
  "children fs d = remdups (map last (filter (\<lambda>p. p \<noteq> [] \<and> butlast p = d) (map fst fs)))"

text \<open>\<^verbatim>\<open>Path.iterdir()\<close> raises when the path is not a directory.\<close>

definition iterdir :: "fs \<Rightarrow> path \<Rightarrow> error + string list" where
  "iterdir fs d =
     (case node_at fs d of
        None \<Rightarrow> Inl FileNotFoundError
      | Some Dir \<Rightarrow> Inr (children fs d)
      | Some (File c m r l) \<Rightarrow> Inl NotADirectoryError)"

text \<open>
  Shell-style matching of one name against a pattern in which \<^verbatim>\<open>*\<close> stands for any
  run of characters; the only pattern of the script is \<^verbatim>\<open>model_*.json\<close>.
\<close>

fun fnmatch :: "string \<Rightarrow> string \<Rightarrow> bool" where
  "fnmatch [] s = (s = [])"
| "fnmatch (c # pat) [] = (c = CHR ''*'' \<and> fnmatch pat [])"
| "fnmatch (c # pat) (x # s) =
     (if c = CHR ''*'' then fnmatch pat (x # s) \<or> fnmatch (c # pat) s
      else c = x \<and> fnmatch pat s)"

definition model_pattern :: string where
  "model_pattern = ''model_*.json''"

text \<open>\<^verbatim>\<open>Path.glob(pattern)\<close>: the matching entries of a directory, files or not.\<close>

definition glob :: "fs \<Rightarrow> path \<Rightarrow> string \<Rightarrow> string list" where
  "glob fs d pat = (if is_dir fs d then filter (fnmatch pat) (children fs d) else [])"

text \<open>\<^verbatim>\<open>str.startswith('.')\<close> on a directory name.\<close>

definition hidden :: "string \<Rightarrow> bool" where
  "hidden n = (case n of [] \<Rightarrow> False | c # _ \<Rightarrow> c = CHR ''.'')"

text \<open>Opening a file for reading and reading all of it.\<close>

definition read_bytes :: "fs \<Rightarrow> path \<Rightarrow> error + string" where
  "read_bytes fs p =
     (case node_at fs p of
        None \<Rightarrow> Inl FileNotFoundError
      | Some Dir \<Rightarrow> Inl IsADirectoryError
      | Some (File c m r l) \<Rightarrow> if r then Inr c else Inl PermissionError)"

text \<open>
  Opening a file for writing and writing \<open>c\<close> to it, at time \<open>t\<close>. A new file is
  readable and not locked; an existing one keeps its permissions.
\<close>

definition write_bytes :: "fs \<Rightarrow> path \<Rightarrow> string \<Rightarrow> nat \<Rightarrow> error + fs" where
  "write_bytes fs p c t =
     (case node_at fs p of
        Some Dir \<Rightarrow> Inl IsADirectoryError
      | Some (File c' m r l) \<Rightarrow>
          if l then Inl PermissionError else Inr (AList.update p (File c t r l) fs)
      | None \<Rightarrow>
          (case node_at fs (parent p) of
             None \<Rightarrow> Inl FileNotFoundError
           | Some Dir \<Rightarrow> Inr (AList.update p (File c t True False) fs)
           | Some (File c' m r l) \<Rightarrow> Inl NotADirectoryError))"

text \<open>\<^verbatim>\<open>Path.unlink()\<close>.\<close>

definition unlink :: "fs \<Rightarrow> path \<Rightarrow> error + fs" where
  "unlink fs p =
     (case node_at fs p of
        None \<Rightarrow> Inl FileNotFoundError
      | Some Dir \<Rightarrow> Inl IsADirectoryError
      | Some (File c m r l) \<Rightarrow> if l then Inl PermissionError else Inr (AList.delete p fs))"

text \<open>
  \<^verbatim>\<open>ensure_dir(p)\<close>, that is \<^verbatim>\<open>p.mkdir(parents=True, exist_ok=True)\<close>: the missing
  directories of the chain are created from the top; a regular file in the chain makes
  the call raise before anything is created.
\<close>

function ensure_dir :: "fs \<Rightarrow> path \<Rightarrow> error + fs" where
  "ensure_dir fs p =
     (case node_at fs p of
        Some Dir \<Rightarrow> Inr fs
      | Some (File c m r l) \<Rightarrow> Inl FileExistsError
      | None \<Rightarrow>
          (case ensure_dir fs (butlast p) of
             Inl e \<Rightarrow> Inl NotADirectoryError
           | Inr fs' \<Rightarrow> Inr (AList.update p Dir fs')))"
  by pat_completeness auto
termination
  by (relation "measure (\<lambda>(fs, p). length p)") (auto simp: node_at_def split: if_splits)

text \<open>
  \<^verbatim>\<open>shutil.copy2(src, dst)\<close>: when \<open>dst\<close> is a directory the file goes into it
  under the source's name; copying a file onto itself raises; the bytes are copied and
  then the metadata of the source (modification time, permission bits).
\<close>

definition copy2 :: "fs \<Rightarrow> path \<Rightarrow> path \<Rightarrow> error + fs" where
  "copy2 fs src dst =
     (let dst' = (if is_dir fs dst then dst @ [basename src] else dst) in
      if path_exists fs src \<and> src = dst' then Inl SameFileError
      else
        (case node_at fs src of
           None \<Rightarrow> Inl FileNotFoundError
         | Some Dir \<Rightarrow> Inl IsADirectoryError
         | Some (File c m r l) \<Rightarrow>
             if \<not> r then Inl PermissionError
             else
               (case write_bytes fs dst' c m of
                  Inl e \<Rightarrow> Inl e
                | Inr fs' \<Rightarrow> Inr (AList.update dst' (File c m r False) fs'))))"

section \<open>Library functions taken as parameters\<close>

text \<open>
  \<^verbatim>\<open>hashlib.md5\<close>, \<^verbatim>\<open>json.load\<close>, \<^verbatim>\<open>json.dump\<close> and the system clock are not
  part of the script. They are fields of an environment: the digest of a byte string,
  the parser (\<open>None\<close> when the text is not JSON), the printer, and the time shown by the
  clock at its \<open>n\<close>-th tick.
\<close>

datatype json =
    JNull | JBool bool | JNum int | JStr string | JArr "json list" | JObj "(string \<times> json) list"

record datetime =
  year :: nat
  month :: nat
  day :: nat
  hour :: nat
  minute :: nat
  second :: nat

record env =
  md5 :: "string \<Rightarrow> string"
  json_load :: "string \<Rightarrow> json option"
  json_dump :: "json \<Rightarrow> string"
  clock :: "nat \<Rightarrow> datetime"

section \<open>The script\<close>

definition BEST_MODELS_FILENAME :: string where
  "BEST_MODELS_FILENAME = ''best_models.json''"

text \<open>\<^verbatim>\<open>read_json\<close>: any failure to open, decode or parse is an exception.\<close>

definition read_json :: "env \<Rightarrow> fs \<Rightarrow> path \<Rightarrow> error + json" where
  "read_json L fs p =
     (case read_bytes fs p of
        Inl e \<Rightarrow> Inl e
      | Inr c \<Rightarrow> (case json_load L c of None \<Rightarrow> Inl JSONDecodeError | Some j \<Rightarrow> Inr j))"

definition file_md5 :: "env \<Rightarrow> fs \<Rightarrow> path \<Rightarrow> error + string" where
  "file_md5 L fs p = (case read_bytes fs p of Inl e \<Rightarrow> Inl e | Inr c \<Rightarrow> Inr (md5 L c))"

definition files_identical :: "env \<Rightarrow> fs \<Rightarrow> path \<Rightarrow> path \<Rightarrow> bool" where
  "files_identical L fs src dst =
     (if \<not> path_exists fs dst then False
      else
        (case file_md5 L fs src of
           Inl e \<Rightarrow> False
         | Inr a \<Rightarrow> (case file_md5 L fs dst of Inl e \<Rightarrow> False | Inr b \<Rightarrow> a = b)))"

text \<open>
  \<^verbatim>\<open>copy_model_file\<close> returns the filesystem it leaves behind together with either
  the exception that escaped or the Boolean it returned. The flag \<^verbatim>\<open>verbose\<close> only
  selects what is printed and is left out.
\<close>

definition copy_model_file ::
  "env \<Rightarrow> fs \<Rightarrow> path \<Rightarrow> path \<Rightarrow> bool \<Rightarrow> bool \<Rightarrow> (error + bool) \<times> fs" where
  "copy_model_file L fs src_file dest_file overwrite dry_run =
     (if path_exists fs dest_file \<and> files_identical L fs src_file dest_file then (Inr False, fs)
      else if path_exists fs dest_file \<and> \<not> overwrite then (Inr False, fs)
      else if dry_run then (Inr True, fs)
      else
        (case ensure_dir fs (parent dest_file) of
           Inl e \<Rightarrow> (Inl e, fs)
         | Inr fs1 \<Rightarrow>
             (case copy2 fs1 src_file dest_file of
                Inl e \<Rightarrow> (Inl e, fs1)
              | Inr fs2 \<Rightarrow> (Inr True, fs2))))"

text \<open>
  A manifest entry is usable when it is an object with the key \<^verbatim>\<open>model_file\<close>;
  the result is the value stored under that key.
\<close>

definition entry_model_file :: "json \<Rightarrow> json option" where
  "entry_model_file entry = (case entry of JObj kvs \<Rightarrow> map_of kvs ''model_file'' | _ \<Rightarrow> None)"

text \<open>
  The loop of \<^verbatim>\<open>sync_best_models\<close> over the items of the source manifest. Joining a
  path with a value that is not a string raises \<^verbatim>\<open>TypeError\<close>.
\<close>

fun sync_best_loop ::
  "env \<Rightarrow> path \<Rightarrow> path \<Rightarrow> bool \<Rightarrow> bool \<Rightarrow> (string \<times> json) list \<Rightarrow> (string \<times> string) list \<Rightarrow> fs
     \<Rightarrow> (error + (string \<times> string) list) \<times> fs" where
  "sync_best_loop L src_models_dir dest_models_dir overwrite dry_run [] synced_models fs =
     (Inr synced_models, fs)"
| "sync_best_loop L src_models_dir dest_models_dir overwrite dry_run ((ruleset, entry) # rest)
       synced_models fs =
     (case entry_model_file entry of
        None \<Rightarrow>
          sync_best_loop L src_models_dir dest_models_dir overwrite dry_run rest synced_models fs
      | Some (JStr model_filename) \<Rightarrow>
          if \<not> path_exists fs (src_models_dir @ [ruleset, model_filename])
          then sync_best_loop L src_models_dir dest_models_dir overwrite dry_run rest synced_models fs
          else
            (case copy_model_file L fs (src_models_dir @ [ruleset, model_filename])
                    (dest_models_dir @ [ruleset, model_filename]) overwrite dry_run of
               (Inl e, fs') \<Rightarrow> (Inl e, fs')
             | (Inr copied, fs') \<Rightarrow>
                 sync_best_loop L src_models_dir dest_models_dir overwrite dry_run rest
                   (if copied then AList.update ruleset model_filename synced_models
                    else synced_models) fs')
      | Some _ \<Rightarrow> (Inl TypeError, fs))"

text \<open>\<^verbatim>\<open>len(x)\<close> is defined on objects, arrays and strings only.\<close>

definition sized :: "json \<Rightarrow> bool" where
  "sized j = (case j of JObj _ \<Rightarrow> True | JArr _ \<Rightarrow> True | JStr _ \<Rightarrow> True | _ \<Rightarrow> False)"

definition sync_best_models ::
  "env \<Rightarrow> fs \<Rightarrow> path \<Rightarrow> path \<Rightarrow> bool \<Rightarrow> bool \<Rightarrow> bool \<Rightarrow> (error + (string \<times> string) list) \<times> fs" where
  "sync_best_models L fs src_models_dir dest_models_dir overwrite dry_run verbose =
     (if \<not> path_exists fs (src_models_dir @ [BEST_MODELS_FILENAME]) then (Inr [], fs)
      else
        (case read_json L fs (src_models_dir @ [BEST_MODELS_FILENAME]) of
           Inl e \<Rightarrow> (Inr [], fs)
         | Inr src_best \<Rightarrow>
             if verbose \<and> \<not> sized src_best then (Inl TypeError, fs)
             else
               (case src_best of
                  JObj items \<Rightarrow>
                    sync_best_loop L src_models_dir dest_models_dir overwrite dry_run items [] fs
                | _ \<Rightarrow> (Inl AttributeError, fs))))"

text \<open>The inner and outer loops of \<^verbatim>\<open>sync_all_models\<close>.\<close>

fun sync_all_files ::
  "env \<Rightarrow> path \<Rightarrow> path \<Rightarrow> bool \<Rightarrow> bool \<Rightarrow> string \<Rightarrow> string list \<Rightarrow> (string \<times> string) list \<Rightarrow> fs
     \<Rightarrow> (error + (string \<times> string) list) \<times> fs" where
  "sync_all_files L src_models_dir dest_models_dir overwrite dry_run ruleset [] synced_models fs =
     (Inr synced_models, fs)"
| "sync_all_files L src_models_dir dest_models_dir overwrite dry_run ruleset (model_file # rest)
       synced_models fs =
     (case copy_model_file L fs (src_models_dir @ [ruleset, model_file])
             (dest_models_dir @ [ruleset, model_file]) overwrite dry_run of
        (Inl e, fs') \<Rightarrow> (Inl e, fs')
      | (Inr copied, fs') \<Rightarrow>
          sync_all_files L src_models_dir dest_models_dir overwrite dry_run ruleset rest
            (if copied then AList.update ruleset model_file synced_models else synced_models) fs')"

fun sync_all_dirs ::
  "env \<Rightarrow> path \<Rightarrow> path \<Rightarrow> bool \<Rightarrow> bool \<Rightarrow> string list \<Rightarrow> (string \<times> string) list \<Rightarrow> fs
     \<Rightarrow> (error + (string \<times> string) list) \<times> fs" where
  "sync_all_dirs L src_models_dir dest_models_dir overwrite dry_run [] synced_models fs =
     (Inr synced_models, fs)"
| "sync_all_dirs L src_models_dir dest_models_dir overwrite dry_run (ruleset # rest)
       synced_models fs =
     (if \<not> is_dir fs (src_models_dir @ [ruleset]) \<or> hidden ruleset
      then sync_all_dirs L src_models_dir dest_models_dir overwrite dry_run rest synced_models fs
      else
        (case sync_all_files L src_models_dir dest_models_dir overwrite dry_run ruleset
                (sort (glob fs (src_models_dir @ [ruleset]) model_pattern)) synced_models fs of
           (Inl e, fs') \<Rightarrow> (Inl e, fs')
         | (Inr synced', fs') \<Rightarrow>
             sync_all_dirs L src_models_dir dest_models_dir overwrite dry_run rest synced' fs'))"

definition sync_all_models ::
  "env \<Rightarrow> fs \<Rightarrow> path \<Rightarrow> path \<Rightarrow> bool \<Rightarrow> bool \<Rightarrow> (error + (string \<times> string) list) \<times> fs" where
  "sync_all_models L fs src_models_dir dest_models_dir overwrite dry_run =
     (case iterdir fs src_models_dir of
        Inl e \<Rightarrow> (Inl e, fs)
      | Inr names \<Rightarrow> sync_all_dirs L src_models_dir dest_models_dir overwrite dry_run names [] fs)"

text \<open>
  \<^verbatim>\<open>cleanup_old_models\<close>. The set of best models holds pairs of a ruleset and the
  value found under \<^verbatim>\<open>model_file\<close>; a pair whose second component is an array or an
  object cannot be hashed, and adding it raises \<^verbatim>\<open>TypeError\<close>.
\<close>

definition hashable :: "json \<Rightarrow> bool" where
  "hashable j = (case j of JArr _ \<Rightarrow> False | JObj _ \<Rightarrow> False | _ \<Rightarrow> True)"

fun best_model_files ::
  "(string \<times> json) list \<Rightarrow> (string \<times> json) set \<Rightarrow> error + (string \<times> json) set" where
  "best_model_files [] best = Inr best"
| "best_model_files ((ruleset, entry) # rest) best =
     (case entry_model_file entry of
        None \<Rightarrow> best_model_files rest best
      | Some v \<Rightarrow>
          if hashable v then best_model_files rest (insert (ruleset, v) best)
          else Inl TypeError)"

fun cleanup_files ::
  "path \<Rightarrow> bool \<Rightarrow> (string \<times> json) set \<Rightarrow> string \<Rightarrow> string list \<Rightarrow> fs \<Rightarrow> (error + unit) \<times> fs" where
  "cleanup_files dest_models_dir dry_run best ruleset [] fs = (Inr (), fs)"
| "cleanup_files dest_models_dir dry_run best ruleset (model_file # rest) fs =
     (if (ruleset, JStr model_file) \<in> best
      then cleanup_files dest_models_dir dry_run best ruleset rest fs
      else if dry_run then cleanup_files dest_models_dir dry_run best ruleset rest fs
      else
        (case unlink fs (dest_models_dir @ [ruleset, model_file]) of
           Inl e \<Rightarrow> (Inl e, fs)
         | Inr fs' \<Rightarrow> cleanup_files dest_models_dir dry_run best ruleset rest fs'))"

fun cleanup_dirs ::
  "path \<Rightarrow> bool \<Rightarrow> (string \<times> json) set \<Rightarrow> string list \<Rightarrow> fs \<Rightarrow> (error + unit) \<times> fs" where
  "cleanup_dirs dest_models_dir dry_run best [] fs = (Inr (), fs)"
| "cleanup_dirs dest_models_dir dry_run best (ruleset # rest) fs =
     (if \<not> is_dir fs (dest_models_dir @ [ruleset]) \<or> hidden ruleset
      then cleanup_dirs dest_models_dir dry_run best rest fs
      else
        (case cleanup_files dest_models_dir dry_run best ruleset
                (glob fs (dest_models_dir @ [ruleset]) model_pattern) fs of
           (Inl e, fs') \<Rightarrow> (Inl e, fs')
         | (Inr u, fs') \<Rightarrow> cleanup_dirs dest_models_dir dry_run best rest fs'))"

definition cleanup_old_models :: "env \<Rightarrow> fs \<Rightarrow> path \<Rightarrow> bool \<Rightarrow> (error + unit) \<times> fs" where
  "cleanup_old_models L fs dest_models_dir dry_run =
     (if \<not> path_exists fs (dest_models_dir @ [BEST_MODELS_FILENAME]) then (Inr (), fs)
      else
        (case read_json L fs (dest_models_dir @ [BEST_MODELS_FILENAME]) of
           Inl e \<Rightarrow> (Inr (), fs)
         | Inr (JObj items) \<Rightarrow>
             (case best_model_files items {} of
                Inl e \<Rightarrow> (Inl e, fs)
              | Inr best \<Rightarrow>
                  (case iterdir fs dest_models_dir of
                     Inl e \<Rightarrow> (Inl e, fs)
                   | Inr names \<Rightarrow> cleanup_dirs dest_models_dir dry_run best names fs))
         | Inr _ \<Rightarrow> (Inl AttributeError, fs)))"

text \<open>
  \<^verbatim>\<open>os.replace(a, b)\<close> for a regular file \<open>a\<close>, the only use the script makes of
  it: \<open>b\<close> is replaced in one step unless it is a directory or locked.
\<close>

definition replace_file :: "fs \<Rightarrow> path \<Rightarrow> path \<Rightarrow> error + fs" where
  "replace_file fs a b =
     (case node_at fs a of
        None \<Rightarrow> Inl FileNotFoundError
      | Some Dir \<Rightarrow> Inl IsADirectoryError
      | Some (File c m r l) \<Rightarrow>
          if l then Inl PermissionError
          else
            (case node_at fs b of
               Some Dir \<Rightarrow> Inl IsADirectoryError
             | Some (File c' m' r' l') \<Rightarrow>
                 if l' then Inl PermissionError
                 else Inr (AList.update b (File c m r l) (AList.delete a fs))
             | None \<Rightarrow> Inr (AList.update b (File c m r l) (AList.delete a fs))))"

text \<open>\<^verbatim>\<open>path.with_suffix(path.suffix + ".tmp")\<close>: the same name with \<^verbatim>\<open>.tmp\<close> added.\<close>

definition tmp_path :: "path \<Rightarrow> path" where
  "tmp_path p = butlast p @ [basename p @ ''.tmp'']"

text \<open>
  \<^verbatim>\<open>write_json\<close> writes the text and a newline to the temporary sibling at time
  \<open>t\<close>, then renames it over the target.
\<close>

definition write_json :: "env \<Rightarrow> fs \<Rightarrow> path \<Rightarrow> json \<Rightarrow> nat \<Rightarrow> (error + unit) \<times> fs" where
  "write_json L fs p data t =
     (case write_bytes fs (tmp_path p) (json_dump L data @ [CHR 0x0A]) t of
        Inl e \<Rightarrow> (Inl e, fs)
      | Inr fs1 \<Rightarrow>
          (case replace_file fs1 (tmp_path p) p of
             Inl e \<Rightarrow> (Inl e, fs1)
           | Inr fs2 \<Rightarrow> (Inr (), fs2)))"

text \<open>\<^verbatim>\<open>strftime\<close> for the two formats of the script: decimal fields padded with zeros.\<close>

definition digit_char :: "nat \<Rightarrow> char" where
  "digit_char n = ''0123456789'' ! (n mod 10)"

fun decimal :: "nat \<Rightarrow> string" where
  "decimal n = (if n < 10 then [digit_char n] else decimal (n div 10) @ [digit_char n])"

definition zero_pad :: "nat \<Rightarrow> string \<Rightarrow> string" where
  "zero_pad w s = replicate (w - length s) (CHR ''0'') @ s"

definition strftime_date :: "datetime \<Rightarrow> string" where
  "strftime_date dt =
     zero_pad 4 (decimal (year dt)) @ ''-'' @ zero_pad 2 (decimal (month dt)) @ ''-''
       @ zero_pad 2 (decimal (day dt))"

definition strftime_time :: "datetime \<Rightarrow> string" where
  "strftime_time dt =
     zero_pad 2 (decimal (hour dt)) @ '':'' @ zero_pad 2 (decimal (minute dt)) @ '':''
       @ zero_pad 2 (decimal (second dt))"

text \<open>The entry stored for a ruleset, from the time value \<open>now\<close>.\<close>

definition best_entry :: "string \<Rightarrow> datetime \<Rightarrow> json" where
  "best_entry model_filename now =
     JObj [(''model_file'', JStr model_filename),
           (''date'', JStr (strftime_date now)),
           (''time'', JStr (strftime_time now))]"

text \<open>
  The update loop of \<^verbatim>\<open>update_dest_best_models\<close>. Item assignment with a string key
  raises \<^verbatim>\<open>TypeError\<close> on every JSON value that is not an object.
\<close>

fun update_entries :: "datetime \<Rightarrow> (string \<times> string) list \<Rightarrow> json \<Rightarrow> error + json" where
  "update_entries now [] dest_best = Inr dest_best"
| "update_entries now ((ruleset, model_filename) # rest) dest_best =
     (case dest_best of
        JObj d \<Rightarrow>
          update_entries now rest (JObj (AList.update ruleset (best_entry model_filename now) d))
      | _ \<Rightarrow> Inl TypeError)"

text \<open>
  The manifest the update starts from: the one on disk, or the empty object when there
  is none or it cannot be read.
\<close>

definition load_dest_best :: "env \<Rightarrow> fs \<Rightarrow> path \<Rightarrow> json" where
  "load_dest_best L fs dest_best_json =
     (if path_exists fs dest_best_json
      then (case read_json L fs dest_best_json of Inl e \<Rightarrow> JObj [] | Inr j \<Rightarrow> j)
      else JObj [])"

text \<open>
  \<^verbatim>\<open>update_dest_best_models\<close> also takes the number \<open>t\<close> of clock ticks so far and
  returns the new number: \<^verbatim>\<open>datetime.now()\<close> reads the clock at tick \<open>t\<close>, and the file
  is written one tick later.
\<close>

definition update_dest_best_models ::
  "env \<Rightarrow> fs \<Rightarrow> nat \<Rightarrow> path \<Rightarrow> (string \<times> string) list \<Rightarrow> bool \<Rightarrow> (error + unit) \<times> fs \<times> nat" where
  "update_dest_best_models L fs t dest_models_dir synced_models dry_run =
     (if synced_models = [] then (Inr (), fs, t)
      else
        (let dest_best_json = dest_models_dir @ [BEST_MODELS_FILENAME];
             dest_best = load_dest_best L fs dest_best_json;
             now = clock L t
         in case update_entries now synced_models dest_best of
              Inl e \<Rightarrow> (Inl e, fs, Suc t)
            | Inr dest_best' \<Rightarrow>
                if dry_run then (Inr (), fs, Suc t)
                else
                  (case write_json L fs dest_best_json dest_best' (Suc t) of
                     (r, fs') \<Rightarrow> (r, fs', Suc (Suc t)))))"

text \<open>
  \<^verbatim>\<open>main\<close>, after argument parsing and path resolution: the arguments are the two
  resolved directories and the flags. The result is the exit status or the exception that
  escaped.
\<close>

record args =
  arg_src :: path
  arg_dest :: path
  arg_all :: bool
  arg_cleanup :: bool
  arg_overwrite :: bool
  arg_dry_run :: bool
  arg_verbose :: bool

definition main :: "env \<Rightarrow> fs \<Rightarrow> nat \<Rightarrow> args \<Rightarrow> (error + int) \<times> fs \<times> nat" where
  "main L fs t a =
     (if \<not> path_exists fs (arg_src a) then (Inr 2, fs, t)
      else
        (case (if arg_all a
               then sync_all_models L fs (arg_src a) (arg_dest a) (arg_overwrite a) (arg_dry_run a)
               else sync_best_models L fs (arg_src a) (arg_dest a) (arg_overwrite a)
                      (arg_dry_run a) (arg_verbose a)) of
           (Inl e, fs1) \<Rightarrow> (Inl e, fs1, t)
         | (Inr synced_models, fs1) \<Rightarrow>
             (case (if synced_models \<noteq> []
                    then update_dest_best_models L fs1 t (arg_dest a) synced_models (arg_dry_run a)
                    else (Inr (), fs1, t)) of
                (Inl e, fs2, t2) \<Rightarrow> (Inl e, fs2, t2)
              | (Inr u, fs2, t2) \<Rightarrow>
                  (case (if arg_cleanup a
                         then cleanup_old_models L fs2 (arg_dest a) (arg_dry_run a)
                         else (Inr (), fs2)) of
                     (Inl e, fs3) \<Rightarrow> (Inl e, fs3, t2)
                   | (Inr u', fs3) \<Rightarrow> (Inr 0, fs3, t2)))))"


section \<open>A small example tree\<close>

text \<open>
  The environment of the examples hashes a text to itself and parses two fixed manifest
  texts. The source tree holds a manifest and one ruleset with two model files; the
  destination directory is empty.
\<close>

definition example_env :: env where
  "example_env =
     \<lparr>md5 = (\<lambda>s. s),
      json_load = (\<lambda>s. if s = ''manifest A'' then
                             Some (JObj [(''A'', JObj [(''model_file'', JStr ''model_001.json'')])])
                          else if s = ''manifest none'' then Some (JObj [])
                          else None),
      json_dump = (\<lambda>j. ''dumped''),
      clock = (\<lambda>n. \<lparr>year = 2024, month = 3, day = 9, hour = 7, minute = 5, second = n\<rparr>)\<rparr>"

definition example_src :: path where
  "example_src = [''src'']"

definition example_dest :: path where
  "example_dest = [''dest'']"

definition example_fs :: fs where
  "example_fs =
     [([''src''], Dir),
      ([''src'', ''best_models.json''], File ''manifest A'' 1 True False),
      ([''src'', ''A''], Dir),
      ([''src'', ''A'', ''model_001.json''], File ''w1'' 2 True False),
      ([''src'', ''A'', ''model_002.json''], File ''w2'' 3 True False),
      ([''dest''], Dir)]"

definition example_args :: args where
  "example_args =
     \<lparr>arg_src = example_src, arg_dest = example_dest, arg_all = False, arg_cleanup = True,
      arg_overwrite = False, arg_dry_run = True, arg_verbose = False\<rparr>"

section \<open>Notions used in the statements\<close>

text \<open>
  A path can be removed when it is a regular file that is not locked. A manifest entry
  references a file of a ruleset when it is an object whose \<^verbatim>\<open>model_file\<close> is that
  name. A stale model is an entry \<open>f\<close> of a non-hidden ruleset directory that matches the
  pattern and is not protected.
\<close>

definition deletable :: "fs \<Rightarrow> path \<Rightarrow> bool" where
  "deletable fs p = (case node_at fs p of Some (File c m r l) \<Rightarrow> \<not> l | _ \<Rightarrow> False)"

definition referenced :: "(string \<times> json) list \<Rightarrow> string \<Rightarrow> string \<Rightarrow> bool" where
  "referenced items ruleset f =
     list_ex (\<lambda>(r, entry). r = ruleset \<and> entry_model_file entry = Some (JStr f)) items"

definition hashable_entries :: "(string \<times> json) list \<Rightarrow> bool" where
  "hashable_entries items =
     list_all (\<lambda>(r, entry). case entry_model_file entry of None \<Rightarrow> True | Some v \<Rightarrow> hashable v) items"

definition stale_model :: "fs \<Rightarrow> path \<Rightarrow> (string \<Rightarrow> string \<Rightarrow> bool) \<Rightarrow> string \<Rightarrow> string \<Rightarrow> bool" where
  "stale_model fs dest_models_dir protected ruleset f =
     (is_dir fs (dest_models_dir @ [ruleset]) \<and> \<not> hidden ruleset \<and> fnmatch model_pattern f
      \<and> path_exists fs (dest_models_dir @ [ruleset, f]) \<and> \<not> protected ruleset f)"

definition example_dest_fs :: fs where
  "example_dest_fs =
     [([''dest''], Dir),
      ([''dest'', ''best_models.json''], File ''manifest A'' 5 True False),
      ([''dest'', ''A''], Dir),
      ([''dest'', ''A'', ''model_000.json''], File ''w0'' 1 True False),
      ([''dest'', ''A'', ''model_001.json''], File ''w1'' 2 True False),
      ([''dest'', ''A'', ''notes.txt''], File ''n'' 3 True False),
      ([''dest'', ''.cache''], Dir),
      ([''dest'', ''.cache'', ''model_009.json''], File ''w9'' 4 True False)]"

definition example_locked_fs :: fs where
  "example_locked_fs =
     [([''dest''], Dir),
      ([''dest'', ''best_models.json''], File ''manifest A'' 5 True False),
      ([''dest'', ''A''], Dir),
      ([''dest'', ''A'', ''model_000.json''], File ''w0'' 1 True True),
      ([''dest'', ''A'', ''model_001.json''], File ''w1'' 2 True False),
      ([''dest'', ''A'', ''model_002.json''], File ''w2'' 3 True False)]"





definition example_synced :: "(string \<times> string) list" where
  "example_synced = [(''A'', ''model_001.json''), (''B'', ''model_002.json'')]"

definition example_items :: "(string \<times> json) list" where
  "example_items = [(''A'', JObj [(''model_file'', JStr ''model_001.json'')])]"

section \<open>Properties\<close>

subsection \<open>Paths, directories and copies\<close>

declare decimal.simps [simp del]
declare ensure_dir.simps [simp del]

lemma node_at_update: "p \<noteq> [] \<Longrightarrow> node_at (AList.update p n fs) q = (if q = p then Some n else node_at fs q)"
  by (simp add: node_at_def update_conv')

lemma node_at_delete: "p \<noteq> [] \<Longrightarrow> node_at (AList.delete p fs) q = (if q = p then None else node_at fs q)"
  by (simp add: node_at_def delete_conv')

lemma node_at_Nil [simp]: "node_at fs [] = Some Dir"
  by (simp add: node_at_def)

lemma prefix_butlast_iff: "p \<noteq> [] \<Longrightarrow> prefix q p \<longleftrightarrow> q = p \<or> prefix q (butlast p)"
  by (metis append_butlast_last_id prefix_snoc)

lemma not_prefix_butlast: "p \<noteq> [] \<Longrightarrow> \<not> prefix p (butlast p)"
  by (cases p rule: rev_cases) (auto dest!: prefix_length_le)

lemma prefix_butlast_strict: "p \<noteq> [] \<Longrightarrow> prefix q (butlast p) \<longleftrightarrow> strict_prefix q p"
  using not_prefix_butlast[of p] by (auto simp: strict_prefix_def prefix_butlast_iff)









lemma set_children: "set (children fs d) = {n. path_exists fs (d @ [n])}"
proof -
  have "set (children fs d) = last ` {p \<in> fst ` set fs. p \<noteq> [] \<and> butlast p = d}"
    by (auto simp: children_def)
  also have "\<dots> = {n. d @ [n] \<in> fst ` set fs}"
  proof (rule set_eqI, rule iffI)
    fix n assume "n \<in> last ` {p \<in> fst ` set fs. p \<noteq> [] \<and> butlast p = d}"
    then obtain p where p: "p \<in> fst ` set fs" "p \<noteq> []" "butlast p = d" "n = last p" by auto
    then have "d @ [n] = p" using append_butlast_last_id[of p] by simp
    with p show "n \<in> {n. d @ [n] \<in> fst ` set fs}" by simp
  next
    fix n assume "n \<in> {n. d @ [n] \<in> fst ` set fs}"
    then have "d @ [n] \<in> {p \<in> fst ` set fs. p \<noteq> [] \<and> butlast p = d}" by simp
    then have "last (d @ [n]) \<in> last ` {p \<in> fst ` set fs. p \<noteq> [] \<and> butlast p = d}"
      by (rule imageI)
    then show "n \<in> last ` {p \<in> fst ` set fs. p \<noteq> [] \<and> butlast p = d}" by simp
  qed
  also have "\<dots> = {n. path_exists fs (d @ [n])}"
    by (simp add: map_of_eq_None_iff path_exists_def node_at_def)
  finally show ?thesis .
qed


lemma set_glob:
  "set (glob fs d pat) = {n. is_dir fs d \<and> path_exists fs (d @ [n]) \<and> fnmatch pat n}"
  by (auto simp: glob_def set_children)


subsection \<open>A dry run changes nothing\<close>

lemma copy_model_file_dry: "snd (copy_model_file L fs s d ow True) = fs"
  by (simp add: copy_model_file_def)

lemma sync_best_loop_dry: "snd (sync_best_loop L src dest ow True items synced fs) = fs"
proof (induction items arbitrary: synced)
  case Nil
  show ?case by simp
next
  case (Cons a items)
  obtain r e where a: "a = (r, e)" by (cases a)
  show ?case
  proof (cases "entry_model_file e")
    case None
    with a Cons show ?thesis by simp
  next
    case (Some v)
    show ?thesis
    proof (cases v)
      case (JStr f)
      obtain res fs' where c: "copy_model_file L fs (src @ [r, f]) (dest @ [r, f]) ow True = (res, fs')"
        by (cases "copy_model_file L fs (src @ [r, f]) (dest @ [r, f]) ow True")
      with copy_model_file_dry[of L fs "src @ [r, f]" "dest @ [r, f]" ow] have "fs' = fs" by simp
      with a Some JStr c Cons show ?thesis by (cases res) simp_all
    qed (use a Some in simp_all)
  qed
qed

lemma sync_best_models_dry: "snd (sync_best_models L fs src dest ow True v) = fs"
  by (auto simp: sync_best_models_def sync_best_loop_dry split: sum.splits json.splits)

lemma sync_all_files_dry: "snd (sync_all_files L src dest ow True r files synced fs) = fs"
proof (induction files arbitrary: synced)
  case Nil
  show ?case by simp
next
  case (Cons f files)
  obtain res fs' where c: "copy_model_file L fs (src @ [r, f]) (dest @ [r, f]) ow True = (res, fs')"
    by (cases "copy_model_file L fs (src @ [r, f]) (dest @ [r, f]) ow True")
  with copy_model_file_dry[of L fs "src @ [r, f]" "dest @ [r, f]" ow] have "fs' = fs" by simp
  with c Cons show ?case by (cases res) simp_all
qed

lemma sync_all_dirs_dry: "snd (sync_all_dirs L src dest ow True names synced fs) = fs"
proof (induction names arbitrary: synced)
  case Nil
  show ?case by simp
next
  case (Cons r names)
  let ?call = "sync_all_files L src dest ow True r (sort (glob fs (src @ [r]) model_pattern)) synced fs"
  obtain res fs' where c: "?call = (res, fs')" by (cases ?call)
  with sync_all_files_dry[of L src dest ow r _ synced fs] have "fs' = fs" by (metis snd_conv)
  with c Cons show ?case by (cases res) simp_all
qed

lemma sync_all_models_dry: "snd (sync_all_models L fs src dest ow True) = fs"
  by (auto simp: sync_all_models_def sync_all_dirs_dry split: sum.splits)

lemma cleanup_files_dry: "cleanup_files dest True best r files fs = (Inr (), fs)"
  by (induction files) simp_all

lemma cleanup_dirs_dry: "cleanup_dirs dest True best names fs = (Inr (), fs)"
  by (induction names) (simp_all add: cleanup_files_dry)

lemma cleanup_old_models_dry: "snd (cleanup_old_models L fs dest True) = fs"
  by (auto simp: cleanup_old_models_def cleanup_dirs_dry split: sum.splits json.splits)

lemma update_dest_best_models_dry: "fst (snd (update_dest_best_models L fs t dest synced True)) = fs"
  by (auto simp: update_dest_best_models_def Let_def split: sum.splits)

lemma main_dry: "arg_dry_run a \<Longrightarrow> fst (snd (main L fs t a)) = fs"
proof -
  assume dry: "arg_dry_run a"
  let ?sync = "if arg_all a
               then sync_all_models L fs (arg_src a) (arg_dest a) (arg_overwrite a) (arg_dry_run a)
               else sync_best_models L fs (arg_src a) (arg_dest a) (arg_overwrite a)
                      (arg_dry_run a) (arg_verbose a)"
  obtain r1 fs1 where s: "?sync = (r1, fs1)" by (cases ?sync)
  have fs1: "fs1 = fs"
    using s dry sync_all_models_dry[of L fs "arg_src a" "arg_dest a" "arg_overwrite a"]
      sync_best_models_dry[of L fs "arg_src a" "arg_dest a" "arg_overwrite a" "arg_verbose a"]
    by (auto split: if_splits)
  show ?thesis
  proof (cases r1)
    case (Inl e)
    with s fs1 show ?thesis by (simp add: main_def)
  next
    case (Inr synced)
    let ?upd = "if synced \<noteq> []
                then update_dest_best_models L fs t (arg_dest a) synced (arg_dry_run a)
                else (Inr (), fs, t)"
    obtain r2 fs2 t2 where u: "?upd = (r2, fs2, t2)" by (cases ?upd)
    have fs2: "fs2 = fs"
      using u dry update_dest_best_models_dry[of L fs t "arg_dest a" synced]
      by (auto split: if_splits)
    show ?thesis
    proof (cases r2)
      case (Inl e)
      with s fs1 Inr u fs2 show ?thesis by (simp add: main_def)
    next
      case (Inr u')
      let ?cl = "if arg_cleanup a then cleanup_old_models L fs (arg_dest a) (arg_dry_run a)
                 else (Inr (), fs)"
      obtain r3 fs3 where c: "?cl = (r3, fs3)" by (cases ?cl)
      have fs3: "fs3 = fs"
        using c dry cleanup_old_models_dry[of L fs "arg_dest a"] by (auto split: if_splits)
      from s fs1 \<open>r1 = Inr synced\<close> u fs2 Inr c fs3 show ?thesis
        by (cases r3) (simp_all add: main_def)
    qed
  qed
qed



text \<open>
  C7. When hashing either file raises, \<^verbatim>\<open>files_identical\<close> returns false instead of
  raising, and \<^verbatim>\<open>copy_model_file\<close> goes on as for differing contents: it skips an
  existing destination without \<^verbatim>\<open>overwrite\<close> and otherwise takes the copy branch.
\<close>

theorem files_identical_hash_failure:
  assumes "file_md5 L fs src_file = Inl e \<or> file_md5 L fs dest_file = Inl e"
  shows "\<not> files_identical L fs src_file dest_file
       \<and> copy_model_file L fs src_file dest_file overwrite dry_run =
           (if path_exists fs dest_file \<and> \<not> overwrite then (Inr False, fs)
            else if dry_run then (Inr True, fs)
            else
              (case ensure_dir fs (parent dest_file) of
                 Inl e \<Rightarrow> (Inl e, fs)
               | Inr fs1 \<Rightarrow>
                   (case copy2 fs1 src_file dest_file of
                      Inl e \<Rightarrow> (Inl e, fs1)
                    | Inr fs2 \<Rightarrow> (Inr True, fs2))))"
proof -
  have ni: "\<not> files_identical L fs src_file dest_file"
    using assms by (auto simp: files_identical_def split: sum.splits)
  then show ?thesis by (simp add: copy_model_file_def)
qed

theorem files_identical_hash_failure_witness:
  "file_md5 example_env (([''dest'', ''A''], Dir) # example_fs) [''src'', ''A''] = Inl IsADirectoryError
   \<and> \<not> files_identical example_env (([''dest'', ''A''], Dir) # example_fs) [''src'', ''A''] [''dest'', ''A'']
   \<and> copy_model_file example_env (([''dest'', ''A''], Dir) # example_fs) [''src'', ''A'']
         [''dest'', ''A''] False False = (Inr False, ([''dest'', ''A''], Dir) # example_fs)"
  using files_identical_hash_failure[of example_env "([''dest'', ''A''], Dir) # example_fs"
      "[''src'', ''A'']" IsADirectoryError "[''dest'', ''A'']" False False]
  by (simp add: example_fs_def node_at_def file_md5_def read_bytes_def path_exists_def)

text \<open>
  C5. Whatever the flags and the filesystem, a run of \<^verbatim>\<open>main\<close> with \<^verbatim>\<open>dry_run\<close> leaves
  the filesystem exactly as it was; and from one and the same state \<^verbatim>\<open>copy_model_file\<close>
  takes the same decision dry and live: where the dry run reports a skip the live run
  skips, and where it reports a copy the live run does not skip.
\<close>

theorem dry_run_no_mutation:
  "(arg_dry_run a \<longrightarrow> fst (snd (main L fs t a)) = fs)
   \<and> (\<exists>copy. copy_model_file L fs src_file dest_file overwrite True = (Inr copy, fs)
         \<and> (\<not> copy \<longrightarrow> copy_model_file L fs src_file dest_file overwrite False = (Inr False, fs))
         \<and> (copy \<longrightarrow> fst (copy_model_file L fs src_file dest_file overwrite False) \<noteq> Inr False))"
proof
  show "arg_dry_run a \<longrightarrow> fst (snd (main L fs t a)) = fs"
    by (simp add: main_dry)
next
  let ?skip = "(path_exists fs dest_file \<and> files_identical L fs src_file dest_file)
                 \<or> (path_exists fs dest_file \<and> \<not> overwrite)"
  show "\<exists>copy. copy_model_file L fs src_file dest_file overwrite True = (Inr copy, fs)
         \<and> (\<not> copy \<longrightarrow> copy_model_file L fs src_file dest_file overwrite False = (Inr False, fs))
         \<and> (copy \<longrightarrow> fst (copy_model_file L fs src_file dest_file overwrite False) \<noteq> Inr False)"
  proof (cases ?skip)
    case True
    then have "copy_model_file L fs src_file dest_file overwrite True = (Inr False, fs)"
      and "copy_model_file L fs src_file dest_file overwrite False = (Inr False, fs)"
      by (auto simp: copy_model_file_def)
    then show ?thesis by (intro exI[of _ False]) simp
  next
    case False
    then have "copy_model_file L fs src_file dest_file overwrite True = (Inr True, fs)"
      and "fst (copy_model_file L fs src_file dest_file overwrite False) \<noteq> Inr False"
      by (auto simp: copy_model_file_def split: sum.splits)
    then show ?thesis by (intro exI[of _ True]) simp
  qed
qed


theorem dry_run_no_mutation_witness:
  "arg_dry_run example_args \<and> fst (snd (main example_env example_fs 0 example_args)) = example_fs"
  using dry_run_no_mutation[of example_args example_env example_fs 0]
  by (simp add: example_args_def)


lemma unlink_Inr: "unlink fs p = Inr fs' \<longleftrightarrow> p \<noteq> [] \<and> deletable fs p \<and> fs' = AList.delete p fs"
  by (auto simp: unlink_def deletable_def node_at_def split: option.splits node.splits)





lemma cleanup_files_frame:
  "node_at (snd (cleanup_files dest dry best c files fs)) p \<noteq> node_at fs p \<Longrightarrow>
     \<not> dry \<and> (\<exists>f\<in>set files. p = dest @ [c, f] \<and> (c, JStr f) \<notin> best)
       \<and> node_at (snd (cleanup_files dest dry best c files fs)) p = None"
proof (induction files arbitrary: fs)
  case Nil
  then show ?case by simp
next
  case (Cons f files)
  show ?case
  proof (cases "(c, JStr f) \<in> best \<or> dry")
    case True
    then have eq: "cleanup_files dest dry best c (f # files) fs = cleanup_files dest dry best c files fs"
      by auto
    with Cons.prems have "node_at (snd (cleanup_files dest dry best c files fs)) p \<noteq> node_at fs p"
      by simp
    from Cons.IH[OF this] show ?thesis unfolding eq by auto
  next
    case False
    show ?thesis
    proof (cases "unlink fs (dest @ [c, f])")
      case (Inl e)
      with False Cons.prems show ?thesis by simp
    next
      case (Inr fs1)
      then have fs1: "fs1 = AList.delete (dest @ [c, f]) fs" by (simp add: unlink_Inr)
      let ?r = "cleanup_files dest dry best c files fs1"
      have eq: "cleanup_files dest dry best c (f # files) fs = ?r" using False Inr by simp
      show ?thesis
      proof (cases "node_at (snd ?r) p = node_at fs1 p")
        case True
        with Cons.prems eq fs1 have "p = dest @ [c, f]" "node_at (snd ?r) p = None"
          by (auto simp: node_at_delete split: if_splits)
        with False eq show ?thesis by auto
      next
        case ne: False
        from Cons.IH[OF ne] eq show ?thesis by auto
      qed
    qed
  qed
qed




lemma cleanup_files_same:
  "(\<And>f. p \<noteq> dest @ [c, f]) \<Longrightarrow> node_at (snd (cleanup_files dest dry best c files fs)) p = node_at fs p"
  using cleanup_files_frame[of dest dry best c files fs p] by blast

lemma cleanup_files_shrink:
  "node_at (snd (cleanup_files dest dry best c files fs)) p \<noteq> None \<Longrightarrow>
     node_at (snd (cleanup_files dest dry best c files fs)) p = node_at fs p"
proof (rule ccontr)
  assume a: "node_at (snd (cleanup_files dest dry best c files fs)) p \<noteq> None"
    and ne: "node_at (snd (cleanup_files dest dry best c files fs)) p \<noteq> node_at fs p"
  from cleanup_files_frame[OF ne] a show False by simp
qed

lemma in_glob:
  "f \<in> set (glob fs (dest @ [c]) model_pattern) \<longleftrightarrow>
     is_dir fs (dest @ [c]) \<and> path_exists fs (dest @ [c, f]) \<and> fnmatch model_pattern f"
  by (simp add: set_glob)

lemma cleanup_dirs_frame:
  "node_at (snd (cleanup_dirs dest dry best names fs)) p \<noteq> node_at fs p \<Longrightarrow>
     \<not> dry \<and> (\<exists>c\<in>set names. \<exists>f. p = dest @ [c, f]
                  \<and> stale_model fs dest (\<lambda>c f. (c, JStr f) \<in> best) c f)
       \<and> node_at (snd (cleanup_dirs dest dry best names fs)) p = None"
proof (induction names arbitrary: fs)
  case Nil
  then show ?case by simp
next
  case (Cons c names)
  show ?case
  proof (cases "\<not> is_dir fs (dest @ [c]) \<or> hidden c")
    case True
    then have eq: "cleanup_dirs dest dry best (c # names) fs = cleanup_dirs dest dry best names fs"
      by auto
    with Cons.prems have "node_at (snd (cleanup_dirs dest dry best names fs)) p \<noteq> node_at fs p"
      by simp
    from Cons.IH[OF this] show ?thesis unfolding eq by auto
  next
    case False
    let ?files = "glob fs (dest @ [c]) model_pattern"
    let ?r1 = "cleanup_files dest dry best c ?files fs"
    obtain res fs1 where r1: "?r1 = (res, fs1)" by (cases ?r1)
    have fs1: "fs1 = snd ?r1" using r1 by simp
    have step: "\<not> dry \<and> (\<exists>f. p = dest @ [c, f] \<and> stale_model fs dest (\<lambda>c f. (c, JStr f) \<in> best) c f)
                 \<and> node_at fs1 p = None" if "node_at fs1 p \<noteq> node_at fs p"
      using cleanup_files_frame[of dest dry best c ?files fs p] that False
      unfolding fs1 by (auto simp: in_glob stale_model_def)
    show ?thesis
    proof (cases res)
      case (Inl e)
      have e: "cleanup_dirs dest dry best (c # names) fs = (Inl e, fs1)" using False r1 Inl by simp
      with Cons.prems have "node_at fs1 p \<noteq> node_at fs p" by simp
      from step[OF this] show ?thesis unfolding e by auto
    next
      case (Inr u)
      let ?r2 = "cleanup_dirs dest dry best names fs1"
      have eq: "cleanup_dirs dest dry best (c # names) fs = ?r2" using False r1 Inr by simp
      show ?thesis
      proof (cases "node_at (snd ?r2) p = node_at fs1 p")
        case True
        with Cons.prems eq have "node_at fs1 p \<noteq> node_at fs p" by simp
        from step[OF this] obtain f where nd: "\<not> dry" and p: "p = dest @ [c, f]"
          and st: "stale_model fs dest (\<lambda>c f. (c, JStr f) \<in> best) c f"
          and none: "node_at fs1 p = None" by blast
        from none True have "node_at (snd ?r2) p = None" by simp
        with nd p st show ?thesis unfolding eq by auto
      next
        case ne: False
        from Cons.IH[OF ne] obtain c' f' where nd: "\<not> dry" and c': "c' \<in> set names"
          and p: "p = dest @ [c', f']"
          and st: "stale_model fs1 dest (\<lambda>c f. (c, JStr f) \<in> best) c' f'"
          and none: "node_at (snd ?r2) p = None" by blast
        have d: "node_at fs1 (dest @ [c']) = node_at fs (dest @ [c'])"
          unfolding fs1 by (rule cleanup_files_same) simp
        have "node_at fs1 p \<noteq> None" using st p by (simp add: stale_model_def path_exists_def)
        then have "node_at fs1 p = node_at fs p"
          unfolding fs1 by (rule cleanup_files_shrink)
        with st d p have "stale_model fs dest (\<lambda>c f. (c, JStr f) \<in> best) c' f'"
          by (simp add: stale_model_def is_dir_def path_exists_def)
        with nd c' p none eq show ?thesis by auto
      qed
    qed
  qed
qed




lemma cleanup_old_models_frame:
  assumes "node_at (snd (cleanup_old_models L fs dest dry)) p \<noteq> node_at fs p"
  shows "\<not> dry \<and> (\<exists>c f. p = dest @ [c, f] \<and> is_dir fs (dest @ [c]) \<and> \<not> hidden c
            \<and> fnmatch model_pattern f)
         \<and> node_at (snd (cleanup_old_models L fs dest dry)) p = None"
proof -
  from assms obtain best names where
    eq: "cleanup_old_models L fs dest dry = cleanup_dirs dest dry best names fs"
    by (auto simp: cleanup_old_models_def split: if_splits sum.splits json.splits)
  from assms have "node_at (snd (cleanup_dirs dest dry best names fs)) p \<noteq> node_at fs p"
    unfolding eq .
  from cleanup_dirs_frame[OF this] show ?thesis
    unfolding eq by (auto simp: stale_model_def)
qed





lemma not_match_best: "\<not> fnmatch model_pattern BEST_MODELS_FILENAME"
  by (simp add: model_pattern_def BEST_MODELS_FILENAME_def)

lemma not_match_tmp: "\<not> fnmatch model_pattern (BEST_MODELS_FILENAME @ ''.tmp'')"
  by (simp add: model_pattern_def BEST_MODELS_FILENAME_def)

text \<open>
  C10. Whatever the manifest and the mode, \<^verbatim>\<open>cleanup_old_models\<close> leaves in place the
  manifest \<^verbatim>\<open>best_models.json\<close>, its temporary sibling, every path whose name does not
  match \<^verbatim>\<open>model_*.json\<close>, every entry of a hidden ruleset directory, and every entry at
  the top level of the destination directory.
\<close>

theorem cleanup_never_touches:
  "node_at (snd (cleanup_old_models L fs dest dry)) (dest @ [BEST_MODELS_FILENAME])
     = node_at fs (dest @ [BEST_MODELS_FILENAME])
   \<and> node_at (snd (cleanup_old_models L fs dest dry)) (tmp_path (dest @ [BEST_MODELS_FILENAME]))
     = node_at fs (tmp_path (dest @ [BEST_MODELS_FILENAME]))
   \<and> (\<forall>p. \<not> fnmatch model_pattern (basename p) \<longrightarrow>
         node_at (snd (cleanup_old_models L fs dest dry)) p = node_at fs p)
   \<and> (\<forall>c f. hidden c \<longrightarrow>
         node_at (snd (cleanup_old_models L fs dest dry)) (dest @ [c, f]) = node_at fs (dest @ [c, f]))
   \<and> (\<forall>n. node_at (snd (cleanup_old_models L fs dest dry)) (dest @ [n]) = node_at fs (dest @ [n]))"
proof -
  let ?fs' = "snd (cleanup_old_models L fs dest dry)"
  have fr: "node_at ?fs' p = node_at fs p"
    if "\<And>c f. p = dest @ [c, f] \<Longrightarrow> hidden c \<or> \<not> fnmatch model_pattern f" for p
  proof (rule ccontr)
    assume "node_at ?fs' p \<noteq> node_at fs p"
    from cleanup_old_models_frame[OF this] that show False by blast
  qed
  have 1: "node_at ?fs' (dest @ [BEST_MODELS_FILENAME]) = node_at fs (dest @ [BEST_MODELS_FILENAME])"
    by (rule fr) simp
  have 2: "node_at ?fs' (tmp_path (dest @ [BEST_MODELS_FILENAME]))
             = node_at fs (tmp_path (dest @ [BEST_MODELS_FILENAME]))"
    by (rule fr) (simp add: tmp_path_def)
  have 3: "\<forall>p. \<not> fnmatch model_pattern (basename p) \<longrightarrow> node_at ?fs' p = node_at fs p"
    by (intro allI impI, rule fr) (auto simp: basename_def)
  have 4: "\<forall>c f. hidden c \<longrightarrow> node_at ?fs' (dest @ [c, f]) = node_at fs (dest @ [c, f])"
    by (intro allI impI, rule fr) simp
  have 5: "\<forall>n. node_at ?fs' (dest @ [n]) = node_at fs (dest @ [n])"
    by (intro allI, rule fr) simp
  from 1 2 3 4 5 show ?thesis by blast
qed



subsection \<open>The manifest update\<close>


lemma decimal_1: "n < 10 \<Longrightarrow> decimal n = [digit_char n]"
  by (simp add: decimal.simps)

lemma decimal_2: "10 \<le> n \<Longrightarrow> n < 100 \<Longrightarrow> decimal n = [digit_char (n div 10), digit_char n]"
  by (subst decimal.simps) (simp add: decimal_1)

lemma decimal_3:
  "100 \<le> n \<Longrightarrow> n < 1000 \<Longrightarrow> decimal n = [digit_char (n div 100), digit_char (n div 10), digit_char n]"
  by (subst decimal.simps) (simp add: decimal_2 div_mult2_eq[symmetric])

lemma decimal_4:
  "1000 \<le> n \<Longrightarrow> n < 10000 \<Longrightarrow>
     decimal n = [digit_char (n div 1000), digit_char (n div 100), digit_char (n div 10), digit_char n]"
  by (subst decimal.simps) (simp add: decimal_3 div_mult2_eq[symmetric])




lemma update_entries_obj:
  "\<exists>d'. update_entries now synced (JObj d) = Inr (JObj d')
        \<and> (\<forall>k. map_of d' k =
              (case map_of (rev synced) k of None \<Rightarrow> map_of d k | Some f \<Rightarrow> Some (best_entry f now)))"
proof (induction synced arbitrary: d)
  case Nil
  show ?case by simp
next
  case (Cons a synced)
  obtain r f where a: "a = (r, f)" by (cases a)
  let ?d1 = "AList.update r (best_entry f now) d"
  from Cons[of ?d1] obtain d' where
    u: "update_entries now synced (JObj ?d1) = Inr (JObj d')"
    and n: "\<forall>k. map_of d' k =
              (case map_of (rev synced) k of None \<Rightarrow> map_of ?d1 k | Some g \<Rightarrow> Some (best_entry g now))"
    by blast
  have "update_entries now (a # synced) (JObj d) = Inr (JObj d')" using a u by simp
  moreover have "\<forall>k. map_of d' k =
              (case map_of (rev (a # synced)) k of None \<Rightarrow> map_of d k
               | Some g \<Rightarrow> Some (best_entry g now))"
    using n a by (auto simp: map_add_def update_conv' split: option.splits)
  ultimately show ?case by blast
qed

lemma update_entries_not_obj:
  "synced \<noteq> [] \<Longrightarrow> (\<And>d. j \<noteq> JObj d) \<Longrightarrow> update_entries now synced j = Inl TypeError"
  by (cases synced; cases j) auto

lemma map_of_rev_None: "map_of (rev xs) k = None \<longleftrightarrow> k \<notin> fst ` set xs"
  by (simp add: map_of_eq_None_iff)

lemma tmp_path_neq: "tmp_path p \<noteq> p"
proof (cases p rule: rev_cases)
  case Nil
  then show ?thesis by (simp add: tmp_path_def)
next
  case (snoc ys y)
  have "length (y @ ''.tmp'') \<noteq> length y" by simp
  then have "y @ ''.tmp'' \<noteq> y" by fastforce
  with snoc show ?thesis by (simp add: tmp_path_def basename_def)
qed

lemma write_json_Inr:
  assumes w: "write_json L fs p data t = (Inr (), fs')" and pne: "p \<noteq> []"
  shows "\<exists>r. node_at fs' p = Some (File (json_dump L data @ [CHR 0x0A]) t r False)"
    and "node_at fs' (tmp_path p) = None"
    and "\<And>q. q \<noteq> p \<Longrightarrow> q \<noteq> tmp_path p \<Longrightarrow> node_at fs' q = node_at fs q"
proof -
  let ?c = "json_dump L data @ [CHR 0x0A]"
  have tne: "tmp_path p \<noteq> []" by (simp add: tmp_path_def)
  from w obtain fs1 where w1: "write_bytes fs (tmp_path p) ?c t = Inr fs1"
    and rp: "replace_file fs1 (tmp_path p) p = Inr fs'"
    by (auto simp: write_json_def split: sum.splits)
  from w1 obtain r where n1: "node_at fs1 (tmp_path p) = Some (File ?c t r False)"
    and f1: "\<And>q. q \<noteq> tmp_path p \<Longrightarrow> node_at fs1 q = node_at fs q"
    using tne by (auto simp: write_bytes_def node_at_update split: option.splits node.splits if_splits)
  from rp n1 have fs': "fs' = AList.update p (File ?c t r False) (AList.delete (tmp_path p) fs1)"
    by (auto simp: replace_file_def split: option.splits node.splits if_splits)
  show "\<exists>r. node_at fs' p = Some (File ?c t r False)"
    using fs' pne by (simp add: node_at_update)
  show "node_at fs' (tmp_path p) = None"
    using fs' pne tne tmp_path_neq[of p] by (simp add: node_at_update node_at_delete)
  show "node_at fs' q = node_at fs q" if "q \<noteq> p" "q \<noteq> tmp_path p" for q
    using fs' pne tne that f1 by (simp add: node_at_update node_at_delete)
qed



text \<open>
  C9. After a live \<^verbatim>\<open>update_dest_best_models\<close> that returns normally, the manifest on
  disk is the text of an object in which every ruleset of the sync result carries the date
  and the time of one and the same clock reading, the one taken at tick \<open>t\<close> before the
  loop; the call reads the clock once and writes once.
\<close>

theorem update_single_timestamp:
  assumes ne: "synced \<noteq> []"
    and run: "update_dest_best_models L fs t dest synced False = (Inr (), fs', t')"
  shows "\<exists>d'. (\<exists>r. node_at fs' (dest @ [BEST_MODELS_FILENAME])
                    = Some (File (json_dump L (JObj d') @ [CHR 0x0A]) (Suc t) r False))
           \<and> (\<forall>k\<in>fst ` set synced. \<exists>f. map_of (rev synced) k = Some f \<and> map_of d' k =
                  Some (JObj [(''model_file'', JStr f),
                              (''date'', JStr (strftime_date (clock L t))),
                              (''time'', JStr (strftime_time (clock L t)))]))
           \<and> t' = Suc (Suc t)"
proof -
  let ?p = "dest @ [BEST_MODELS_FILENAME]"
  let ?j = "load_dest_best L fs ?p"
  have "\<exists>d. ?j = JObj d"
  proof (rule ccontr)
    assume "\<not> (\<exists>d. ?j = JObj d)"
    then have "update_entries (clock L t) synced ?j = Inl TypeError"
      using ne by (intro update_entries_not_obj) auto
    with ne run show False by (simp add: update_dest_best_models_def)
  qed
  then obtain d where d: "?j = JObj d" by blast
  from update_entries_obj[of "clock L t" synced d] obtain d' where
    u: "update_entries (clock L t) synced (JObj d) = Inr (JObj d')"
    and n: "\<forall>k. map_of d' k =
              (case map_of (rev synced) k of None \<Rightarrow> map_of d k
               | Some f \<Rightarrow> Some (best_entry f (clock L t)))" by blast
  from run ne d u have w: "write_json L fs ?p (JObj d') (Suc t) = (Inr (), fs')" and t': "t' = Suc (Suc t)"
    by (auto simp: update_dest_best_models_def split: prod.splits)
  from write_json_Inr(1)[OF w] have node:
    "\<exists>r. node_at fs' ?p = Some (File (json_dump L (JObj d') @ [CHR 0x0A]) (Suc t) r False)" by simp
  have "\<exists>f. map_of (rev synced) k = Some f \<and> map_of d' k = Some (best_entry f (clock L t))"
    if "k \<in> fst ` set synced" for k
  proof -
    from that have "map_of (rev synced) k \<noteq> None" by (simp add: map_of_rev_None)
    then obtain f where "map_of (rev synced) k = Some f" by blast
    with n show ?thesis by auto
  qed
  then have "\<forall>k\<in>fst ` set synced. \<exists>f. map_of (rev synced) k = Some f \<and> map_of d' k =
                  Some (JObj [(''model_file'', JStr f),
                              (''date'', JStr (strftime_date (clock L t))),
                              (''time'', JStr (strftime_time (clock L t)))])"
    by (simp add: best_entry_def)
  with node t' show ?thesis by blast
qed

lemma example_date: "strftime_date (clock example_env 0) = ''2024-03-09''"
  by (simp add: example_env_def strftime_date_def decimal_4 decimal_1 zero_pad_def digit_char_def)

lemma example_time: "strftime_time (clock example_env 0) = ''07:05:00''"
  by (simp add: example_env_def strftime_time_def decimal_1 zero_pad_def digit_char_def)

lemma example_update_run:
  "update_dest_best_models example_env example_fs 0 example_dest example_synced False =
     (Inr (),
      AList.update [''dest'', ''best_models.json''] (File (''dumped'' @ [CHR 0x0A]) 1 True False) example_fs,
      2)"
  by (simp add: update_dest_best_models_def example_synced_def load_dest_best_def example_fs_def
      example_dest_def BEST_MODELS_FILENAME_def path_exists_def node_at_def write_json_def
      tmp_path_def basename_def write_bytes_def parent_def replace_file_def example_env_def)

theorem update_single_timestamp_witness:
  "example_synced \<noteq> []
   \<and> fst (update_dest_best_models example_env example_fs 0 example_dest example_synced False) = Inr ()
   \<and> (\<exists>d'. map_of d' ''A'' =
              Some (JObj [(''model_file'', JStr ''model_001.json''),
                          (''date'', JStr ''2024-03-09''), (''time'', JStr ''07:05:00'')])
          \<and> map_of d' ''B'' =
              Some (JObj [(''model_file'', JStr ''model_002.json''),
                          (''date'', JStr ''2024-03-09''), (''time'', JStr ''07:05:00'')])
          \<and> read_bytes (fst (snd (update_dest_best_models example_env example_fs 0 example_dest
                                     example_synced False)))
               (example_dest @ [BEST_MODELS_FILENAME])
             = Inr (json_dump example_env (JObj d') @ [CHR 0x0A]))"
proof -
  have ne: "example_synced \<noteq> []" by (simp add: example_synced_def)
  note run = example_update_run
  from update_single_timestamp[OF ne run] obtain d' r where
    node: "node_at (AList.update [''dest'', ''best_models.json'']
                      (File (''dumped'' @ [CHR 0x0A]) 1 True False) example_fs)
             (example_dest @ [BEST_MODELS_FILENAME])
           = Some (File (json_dump example_env (JObj d') @ [CHR 0x0A]) (Suc 0) r False)"
    and ent: "\<forall>k\<in>fst ` set example_synced. \<exists>f. map_of (rev example_synced) k = Some f \<and> map_of d' k =
                  Some (JObj [(''model_file'', JStr f),
                              (''date'', JStr (strftime_date (clock example_env 0))),
                              (''time'', JStr (strftime_time (clock example_env 0)))])"
    by blast
  from ent have
    a: "map_of d' ''A'' = Some (JObj [(''model_file'', JStr ''model_001.json''),
                              (''date'', JStr ''2024-03-09''), (''time'', JStr ''07:05:00'')])"
    and b: "map_of d' ''B'' = Some (JObj [(''model_file'', JStr ''model_002.json''),
                              (''date'', JStr ''2024-03-09''), (''time'', JStr ''07:05:00'')])"
    by (auto simp: example_synced_def example_date example_time)
  have rd: "read_bytes (fst (snd (update_dest_best_models example_env example_fs 0 example_dest
                                     example_synced False)))
               (example_dest @ [BEST_MODELS_FILENAME])
             = Inr (json_dump example_env (JObj d') @ [CHR 0x0A])"
    unfolding run using node
    by (simp add: read_bytes_def example_dest_def BEST_MODELS_FILENAME_def node_at_def update_conv')
  have "fst (update_dest_best_models example_env example_fs 0 example_dest example_synced False) = Inr ()"
    unfolding run by simp
  with ne a b rd show ?thesis by blast
qed


lemmas example_simps =
  example_env_def example_fs_def example_dest_fs_def example_locked_fs_def example_dest_def
  example_src_def example_items_def example_synced_def BEST_MODELS_FILENAME_def model_pattern_def
  node_at_def path_exists_def is_dir_def read_json_def read_bytes_def entry_model_file_def
  hashable_def hashable_entries_def referenced_def stale_model_def deletable_def hidden_def




theorem cleanup_never_touches_witness:
  "hidden ''.cache'' \<and> \<not> fnmatch model_pattern (basename [''dest'', ''A'', ''notes.txt''])
   \<and> node_at (snd (cleanup_old_models example_env example_dest_fs example_dest False))
        (example_dest @ [BEST_MODELS_FILENAME]) = Some (File ''manifest A'' 5 True False)
   \<and> node_at (snd (cleanup_old_models example_env example_dest_fs example_dest False))
        [''dest'', ''A'', ''notes.txt''] = Some (File ''n'' 3 True False)
   \<and> node_at (snd (cleanup_old_models example_env example_dest_fs example_dest False))
        (example_dest @ [''.cache'', ''model_009.json'']) = Some (File ''w9'' 4 True False)"
proof -
  note T = cleanup_never_touches[of example_env example_dest_fs example_dest False]
  have a: "hidden ''.cache''" by (simp add: hidden_def)
  have b: "\<not> fnmatch model_pattern (basename [''dest'', ''A'', ''notes.txt''])"
    by (simp add: basename_def model_pattern_def)
  from T have 1: "node_at (snd (cleanup_old_models example_env example_dest_fs example_dest False))
        (example_dest @ [BEST_MODELS_FILENAME]) = node_at example_dest_fs (example_dest @ [BEST_MODELS_FILENAME])"
    by blast
  from T b have 2: "node_at (snd (cleanup_old_models example_env example_dest_fs example_dest False))
        [''dest'', ''A'', ''notes.txt''] = node_at example_dest_fs [''dest'', ''A'', ''notes.txt'']"
    by blast
  from T a have 3: "node_at (snd (cleanup_old_models example_env example_dest_fs example_dest False))
        (example_dest @ [''.cache'', ''model_009.json''])
        = node_at example_dest_fs (example_dest @ [''.cache'', ''model_009.json''])"
    by blast
  show ?thesis
    unfolding 1 2 3 using a b by (simp add: example_simps)
qed

end
